theory Spec2Isabelle
  imports Main "HOL-Library.Sublist"
begin

section \<open>Strings of clean\_logs.py\<close>

text \<open>
  A Python \<open>str\<close> is a sequence of Unicode code points; a code point is a natural
  number, so the emoji of the source are written by their code points. ASCII literals
  of the source are written as Isabelle strings and converted with \<open>ascii\<close>.
\<close>

type_synonym str = "nat list"

definition ascii :: "string \<Rightarrow> str" where
  "ascii s = map of_char s"

text \<open>Python's \<open>sub in line\<close> on strings: \<open>sub\<close> occurs as a contiguous piece of \<open>line\<close>.\<close>

fun py_in :: "str \<Rightarrow> str \<Rightarrow> bool" where
  "py_in sub [] = (sub = [])"
| "py_in sub (c # cs) = (prefix sub (c # cs) \<or> py_in sub cs)"

text \<open>
  The class \<open>\s\<close> of the \<open>re\<close> module on a \<open>str\<close> pattern: the code points for which
  \<open>str.isspace\<close> holds.
\<close>

definition isspace :: "nat \<Rightarrow> bool" where
  "isspace c =
     ((9 \<le> c \<and> c \<le> 13) \<or> (28 \<le> c \<and> c \<le> 32) \<or> c = 133 \<or> c = 160 \<or> c = 5760
      \<or> (8192 \<le> c \<and> c \<le> 8202) \<or> c = 8232 \<or> c = 8233 \<or> c = 8239 \<or> c = 8287
      \<or> c = 12288)"

section \<open>The classifier \<open>clean_logger_line\<close>\<close>

text \<open>The list \<open>emojis\<close> of the source, in its order; the sixth entry has two code points.\<close>

definition emojis :: "str list" where
  "emojis =
     [[127919], [9989], [128202], [128203], [128237], [9888, 65039], [10060], [128269],
      [129514], [128275], [128230], [128273], [128279], [128197], [127973], [127970],
      [127793], [128100], [128196], [127760], [10133]]"

definition backtick :: nat where "backtick = 96"
definition squote :: nat where "squote = 39"
definition dquote :: nat where "dquote = 34"

definition logger_info :: str where "logger_info = ascii ''logger.info''"
definition logger_error :: str where "logger_error = ascii ''logger.error''"
definition logger_warn :: str where "logger_warn = ascii ''logger.warn''"
definition marker :: str where "marker = ascii ''===''"

text \<open>
  The pattern \<open>(d emoji \s+)\<close> tried at the head of \<open>s\<close>: the delimiter \<open>d\<close>, the
  emoji, and a greedy run of at least one whitespace character. The result is the text
  after the match.
\<close>

definition match_at :: "nat \<Rightarrow> str \<Rightarrow> str \<Rightarrow> str option" where
  "match_at d emoji s =
     (case s of
        [] \<Rightarrow> None
      | c # cs \<Rightarrow>
          if c = d \<and> prefix emoji cs \<and> takeWhile isspace (drop (length emoji) cs) \<noteq> []
          then Some (dropWhile isspace (drop (length emoji) cs))
          else None)"

text \<open>
  \<open>re.sub(rf'(d{emoji}\s+)', d, line)\<close>: every leftmost non-overlapping match is
  replaced by the delimiter, and the scan goes on after the match.
\<close>

function re_sub :: "nat \<Rightarrow> str \<Rightarrow> str \<Rightarrow> str" where
  "re_sub d emoji [] = []"
| "re_sub d emoji (c # cs) =
     (case match_at d emoji (c # cs) of
        Some rest \<Rightarrow> d # re_sub d emoji rest
      | None \<Rightarrow> c # re_sub d emoji cs)"
  by pat_completeness auto
termination
proof (relation "measure (\<lambda>(d, emoji, s). length s)")
  show "wf (measure (\<lambda>(d, emoji, s). length s))" by simp
next
  fix d :: nat and emoji :: str and c :: nat and cs rest :: str
  assume "match_at d emoji (c # cs) = Some rest"
  then have "rest = dropWhile isspace (drop (length emoji) cs)"
    by (simp add: match_at_def split: if_splits)
  moreover have "length (dropWhile isspace (drop (length emoji) cs)) \<le> length cs"
    by (rule order_trans [OF length_dropWhile_le]) simp
  ultimately show "((d, emoji, rest), (d, emoji, c # cs)) \<in> measure (\<lambda>(d, emoji, s). length s)"
    by simp
next
  fix d :: nat and emoji :: str and c :: nat and cs :: str
  show "((d, emoji, cs), (d, emoji, c # cs)) \<in> measure (\<lambda>(d, emoji, s). length s)"
    by simp
qed

text \<open>The body of the loop over \<open>emojis\<close>: the three substitutions, in the source's order.\<close>

definition strip_emoji :: "str \<Rightarrow> str \<Rightarrow> str" where
  "strip_emoji line emoji =
     re_sub dquote emoji (re_sub squote emoji (re_sub backtick emoji line))"

text \<open>Lines 33 to 41 of the source: the rewriting of warn and error lines.\<close>

definition rewrite_warn_error :: "str \<Rightarrow> str" where
  "rewrite_warn_error line =
     (if py_in logger_error line \<or> py_in logger_warn line
      then foldl strip_emoji line emojis
      else line)"

text \<open>\<open>any(emoji in line for emoji in emojis)\<close>.\<close>

definition has_emoji :: "str \<Rightarrow> bool" where
  "has_emoji line = list_ex (\<lambda>emoji. py_in emoji line) emojis"

text \<open>The classifier; \<open>None\<close> is the delete marker.\<close>

definition clean_logger_line :: "str \<Rightarrow> str option" where
  "clean_logger_line line =
     (if py_in logger_info line then
        if py_in marker line then None
        else if has_emoji line then None
        else Some (rewrite_warn_error line)
      else Some (rewrite_warn_error line))"

section \<open>The driver \<open>clean_file\<close>\<close>

text \<open>
  The file system maps a path to the decoded text of the file (newlines already
  translated to \<open>\n\<close>, as text mode does), and standard output is the list of printed
  lines. Opening a missing file for reading and opening an unwritable path for writing
  fail.
\<close>

type_synonym path = str

datatype io_error = FileNotFoundError | PermissionError

record world =
  files :: "path \<rightharpoonup> str"
  writable :: "path \<Rightarrow> bool"
  stdout :: "str list"

text \<open>\<open>f.readlines()\<close>: the text cut after every newline, each line keeping its newline.\<close>

fun readlines :: "str \<Rightarrow> str list" where
  "readlines [] = []"
| "readlines (c # cs) =
     (if c = 10 then [10] # readlines cs
      else (case readlines cs of [] \<Rightarrow> [[c]] | l # ls \<Rightarrow> (c # l) # ls))"

text \<open>The loop of lines 51 to 56, on the pair \<open>(cleaned_lines, removed_count)\<close>.\<close>

fun clean_loop :: "str list \<Rightarrow> str list \<times> nat \<Rightarrow> str list \<times> nat" where
  "clean_loop [] st = st"
| "clean_loop (line # lines) (cleaned_lines, removed_count) =
     (case clean_logger_line line of
        None \<Rightarrow> clean_loop lines (cleaned_lines, removed_count + 1)
      | Some cleaned \<Rightarrow> clean_loop lines (cleaned_lines @ [cleaned], removed_count))"

text \<open>The decimal digits of a count, as the f-string prints it.\<close>

function str_of_nat :: "nat \<Rightarrow> str" where
  "str_of_nat n = (if n < 10 then [48 + n] else str_of_nat (n div 10) @ [48 + n mod 10])"
  by pat_completeness auto
termination
  by (relation "measure id") auto

definition removed_message :: "nat \<Rightarrow> str" where
  "removed_message removed_count =
     ascii ''Removed '' @ str_of_nat removed_count @ ascii '' debug logger.info() lines''"

definition written_message :: "path \<Rightarrow> str" where
  "written_message output_path = ascii ''Output written to '' @ output_path"

definition clean_file :: "path \<Rightarrow> path \<Rightarrow> world \<Rightarrow> io_error + world" where
  "clean_file input_path output_path w =
     (case files w input_path of
        None \<Rightarrow> Inl FileNotFoundError
      | Some text \<Rightarrow>
          (case clean_loop (readlines text) ([], 0) of
             (cleaned_lines, removed_count) \<Rightarrow>
               if \<not> writable w output_path then Inl PermissionError
               else Inr (w\<lparr>files := (files w)(output_path \<mapsto> concat cleaned_lines),
                           stdout := stdout w @ [removed_message removed_count,
                                                 written_message output_path]\<rparr>)))"

section \<open>The rewriting in one pass, as the specification words it\<close>

text \<open>
  The specification describes the rewriting of a warn or error line as one removal:
  each configured emoji followed by whitespace that directly follows a backtick, a
  single quote or a double quote goes, the delimiter stays, and nothing else changes.
  \<open>strip_prefixes\<close> is that reading, written from the specification's words, to be
  compared with the loop of substitutions of the source.
\<close>

definition delimiters :: "nat list" where
  "delimiters = [backtick, squote, dquote]"

definition patterns :: "(nat \<times> str) list" where
  "patterns = concat (map (\<lambda>emoji. map (\<lambda>d. (d, emoji)) delimiters) emojis)"

text \<open>The text after the first pattern of \<open>ps\<close> that matches at the head of \<open>s\<close>.\<close>

definition any_match :: "(nat \<times> str) list \<Rightarrow> str \<Rightarrow> str option" where
  "any_match ps s =
     (case List.find (\<lambda>(d, emoji). match_at d emoji s \<noteq> None) ps of
        None \<Rightarrow> None
      | Some (d, emoji) \<Rightarrow> match_at d emoji s)"

function remove_prefixes :: "(nat \<times> str) list \<Rightarrow> str \<Rightarrow> str" where
  "remove_prefixes ps [] = []"
| "remove_prefixes ps (c # cs) =
     (case any_match ps (c # cs) of
        Some rest \<Rightarrow> c # remove_prefixes ps rest
      | None \<Rightarrow> c # remove_prefixes ps cs)"
  by pat_completeness auto
termination
proof (relation "measure (\<lambda>(ps, s). length s)")
  show "wf (measure (\<lambda>(ps, s). length s))" by simp
next
  fix ps :: "(nat \<times> str) list" and c :: nat and cs rest :: str
  assume "any_match ps (c # cs) = Some rest"
  then obtain d emoji where "match_at d emoji (c # cs) = Some rest"
    by (auto simp: any_match_def split: option.splits prod.splits)
  then have "rest = dropWhile isspace (drop (length emoji) cs)"
    by (simp add: match_at_def split: if_splits)
  moreover have "length (dropWhile isspace (drop (length emoji) cs)) \<le> length cs"
    by (rule order_trans [OF length_dropWhile_le]) simp
  ultimately show "((ps, rest), (ps, c # cs)) \<in> measure (\<lambda>(ps, s). length s)"
    by simp
next
  fix ps :: "(nat \<times> str) list" and c :: nat and cs :: str
  show "((ps, cs), (ps, c # cs)) \<in> measure (\<lambda>(ps, s). length s)"
    by simp
qed

definition strip_prefixes :: "str \<Rightarrow> str" where
  "strip_prefixes line = remove_prefixes patterns line"

text \<open>
  A line is \<open>stacked\<close> when, somewhere in it, the text left after a removable emoji and
  its whitespace begins with a configured emoji and whitespace again, so that the
  delimiter is followed by a removable emoji once more after the removal.
\<close>

fun stacked :: "str \<Rightarrow> bool" where
  "stacked [] = False"
| "stacked (c # cs) =
     ((case any_match patterns (c # cs) of
         None \<Rightarrow> False
       | Some rest \<Rightarrow> any_match patterns (c # rest) \<noteq> None)
      \<or> stacked cs)"

section \<open>Example lines\<close>

text \<open>\<open>logger.error('\<dots> Something failed');\<close> with the cross mark U+274C, and its cleaned form.\<close>

definition failed_line :: str where
  "failed_line =
     ascii ''logger.error('' @ [39, 10060, 32] @ ascii ''Something failed'' @ [39] @ ascii '');''"

definition failed_cleaned :: str where
  "failed_cleaned = ascii ''logger.error('' @ [39] @ ascii ''Something failed'' @ [39] @ ascii '');''"

text \<open>An info line with a separator, and an info line with the check mark U+2705.\<close>

definition info_marker_line :: str where
  "info_marker_line = ascii ''logger.info(=== start ===);''"

definition info_emoji_line :: str where
  "info_emoji_line = ascii ''logger.info('' @ [39, 9989, 32] @ ascii ''ok'' @ [39] @ ascii '');''"

definition info_plain_line :: str where
  "info_plain_line = ascii ''logger.info(started);''"

definition warn_plain_line :: str where
  "warn_plain_line = ascii ''logger.warn(low disk);''"

text \<open>A line with an info call carrying a separator and an error call, and no emoji.\<close>

definition mixed_line :: str where
  "mixed_line = ascii ''logger.info(===); logger.error(x);''"

text \<open>
  Error lines whose message starts with two emoji: the direct hit U+1F3AF then the check
  mark U+2705, and the other way round.
\<close>

definition hit_check_line :: str where
  "hit_check_line = ascii ''logger.error('' @ [39, 127919, 32, 9989, 32] @ ascii ''x'' @ [39] @ ascii '')''"

definition check_hit_line :: str where
  "check_hit_line = ascii ''logger.error('' @ [39, 9989, 32, 127919, 32] @ ascii ''x'' @ [39] @ ascii '')''"

definition check_line :: str where
  "check_line = ascii ''logger.error('' @ [39, 9989, 32] @ ascii ''x'' @ [39] @ ascii '')''"

definition hit_line :: str where
  "hit_line = ascii ''logger.error('' @ [39, 127919, 32] @ ascii ''x'' @ [39] @ ascii '')''"

definition bare_line :: str where
  "bare_line = ascii ''logger.error('' @ [39] @ ascii ''x'' @ [39] @ ascii '')''"

text \<open>A file of two lines, the first an info line with a separator, and a world holding it.\<close>

definition in_path :: path where "in_path = ascii ''priorityService.ts''"
definition out_path :: path where "out_path = ascii ''priorityService.ts.cleaned''"

definition example_text :: str where
  "example_text = info_marker_line @ [10] @ warn_plain_line @ [10]"

definition example_world :: world where
  "example_world = \<lparr>files = [in_path \<mapsto> example_text], writable = (\<lambda>p. True), stdout = []\<rparr>"

text \<open>
  A file whose first line ends right after the check mark that opens a template literal,
  and a world holding it.
\<close>

definition open_tick_line :: str where
  "open_tick_line = ascii ''logger.error('' @ [96, 9989, 10]"

definition open_tick_cleaned :: str where
  "open_tick_cleaned = ascii ''logger.error('' @ [96]"

definition rest_line :: str where
  "rest_line = ascii ''failed'' @ [96] @ ascii '');'' @ [10]"

definition merge_text :: str where
  "merge_text = open_tick_line @ rest_line"

definition merge_world :: world where
  "merge_world = \<lparr>files = [in_path \<mapsto> merge_text], writable = (\<lambda>p. True), stdout = []\<rparr>"

text \<open>
  A comment line with a separator that ends right after the check mark, its cleaned
  form, and an info line that the classifier keeps.
\<close>

definition marked_tick_line :: str where
  "marked_tick_line = ascii ''// === logger.error('' @ [96, 9989, 10]"

definition marked_tick_cleaned :: str where
  "marked_tick_cleaned = ascii ''// === logger.error('' @ [96]"

definition info_call_line :: str where
  "info_call_line = ascii ''logger.info(x)'' @ [10]"

section \<open>Facts about substring tests\<close>

lemma py_in_sublist: "py_in sub line = sublist sub line"
  by (induction line) (simp_all add: sublist_Cons_right)

lemma has_emoji_iff: "has_emoji line \<longleftrightarrow> (\<exists>emoji\<in>set emojis. py_in emoji line)"
  by (simp add: has_emoji_def list_ex_iff)

section \<open>Facts about one match and one substitution\<close>

lemma match_at_Cons:
  "match_at d emoji (c # cs) = Some rest \<longleftrightarrow>
     c = d \<and> prefix emoji cs \<and> takeWhile isspace (drop (length emoji) cs) \<noteq> []
     \<and> rest = dropWhile isspace (drop (length emoji) cs)"
  by (auto simp: match_at_def)

lemma match_at_Nil [simp]: "match_at d emoji [] = None"
  by (simp add: match_at_def)

lemma match_at_suffix:
  assumes "match_at d emoji (c # cs) = Some rest"
  shows "suffix rest cs"
proof -
  have "suffix (dropWhile isspace (drop (length emoji) cs)) (drop (length emoji) cs)"
    by (rule suffix_dropWhile)
  moreover have "suffix (drop (length emoji) cs) cs"
    by (rule suffix_drop)
  ultimately show ?thesis
    using assms by (auto simp: match_at_Cons intro: suffix_order.trans)
qed

lemma match_at_shorter:
  assumes "match_at d emoji (c # cs) = Some rest"
  shows "length rest < length cs"
proof -
  from assms have p: "prefix emoji cs" and w: "takeWhile isspace (drop (length emoji) cs) \<noteq> []"
    and r: "rest = dropWhile isspace (drop (length emoji) cs)"
    by (simp_all add: match_at_Cons)
  have "length (takeWhile isspace (drop (length emoji) cs)) + length rest
          = length (drop (length emoji) cs)"
    unfolding r by (simp flip: length_append)
  moreover have "0 < length (takeWhile isspace (drop (length emoji) cs))"
    using w by simp
  moreover have "length (drop (length emoji) cs) \<le> length cs"
    by simp
  ultimately show ?thesis by linarith
qed

lemma match_at_emoji_in:
  assumes "match_at d emoji (c # cs) = Some rest"
  shows "sublist emoji cs"
  using assms by (simp add: match_at_Cons)

lemma re_sub_no_emoji:
  "\<not> sublist emoji s \<Longrightarrow> re_sub d emoji s = s"
proof (induction d emoji s rule: re_sub.induct)
  case (1 d emoji)
  show ?case by simp
next
  case (2 d emoji c cs)
  have none: "match_at d emoji (c # cs) = None"
  proof (cases "match_at d emoji (c # cs)")
    case (Some rest)
    then have "sublist emoji cs" by (rule match_at_emoji_in)
    with "2.prems" show ?thesis by (simp add: sublist_Cons_right)
  qed simp
  from "2.prems" have "\<not> sublist emoji cs" by (simp add: sublist_Cons_right)
  with "2.IH"(1) none show ?case by simp
qed

lemma re_sub_subseq: "subseq (re_sub d emoji s) s"
proof (induction d emoji s rule: re_sub.induct)
  case (1 d emoji)
  show ?case by simp
next
  case (2 d emoji c cs)
  show ?case
  proof (cases "match_at d emoji (c # cs)")
    case None
    with "2.IH"(1) show ?thesis by simp
  next
    case (Some rest)
    then have "suffix rest cs" by (rule match_at_suffix)
    then have "subseq rest cs" by (simp add: sublist_imp_subseq)
    with "2.IH"(2) [OF Some] have "subseq (re_sub d emoji rest) cs"
      by (rule subseq_order.trans)
    moreover from Some have "c = d" by (simp add: match_at_Cons)
    ultimately show ?thesis using Some by simp
  qed
qed

lemma prefix_re_sub:
  "prefix x (re_sub d emoji s) \<Longrightarrow> d \<notin> set x \<Longrightarrow> prefix x s"
proof (induction d emoji s arbitrary: x rule: re_sub.induct)
  case (1 d emoji)
  then show ?case by simp
next
  case (2 d emoji c cs)
  show ?case
  proof (cases x)
    case Nil
    then show ?thesis by simp
  next
    case (Cons a x')
    show ?thesis
    proof (cases "match_at d emoji (c # cs)")
      case None
      with "2.prems" Cons have "a = c" and "prefix x' (re_sub d emoji cs)" and "d \<notin> set x'"
        by simp_all
      with "2.IH"(1) [OF None] Cons show ?thesis by simp
    next
      case (Some rest)
      with "2.prems" Cons show ?thesis by simp
    qed
  qed
qed

lemma sublist_re_sub:
  "sublist x (re_sub d emoji s) \<Longrightarrow> d \<notin> set x \<Longrightarrow> sublist x s"
proof (induction d emoji s rule: re_sub.induct)
  case (1 d emoji)
  then show ?case by simp
next
  case (2 d emoji c cs)
  show ?case
  proof (cases "match_at d emoji (c # cs)")
    case None
    with "2.prems"(1) have "prefix x (c # re_sub d emoji cs) \<or> sublist x (re_sub d emoji cs)"
      by (simp add: sublist_Cons_right)
    then show ?thesis
    proof
      assume "prefix x (c # re_sub d emoji cs)"
      then have "prefix x (re_sub d emoji (c # cs))" using None by simp
      then have "prefix x (c # cs)" using "2.prems"(2) by (rule prefix_re_sub)
      then show ?thesis by (rule prefix_imp_sublist)
    next
      assume "sublist x (re_sub d emoji cs)"
      then have "sublist x cs" using "2.IH"(1) [OF None] "2.prems"(2) by simp
      then show ?thesis by (simp add: sublist_Cons_right)
    qed
  next
    case (Some rest)
    with "2.prems"(1) have "prefix x (d # re_sub d emoji rest) \<or> sublist x (re_sub d emoji rest)"
      by (simp add: sublist_Cons_right)
    then show ?thesis
    proof
      assume "prefix x (d # re_sub d emoji rest)"
      with "2.prems"(2) have "x = []" by (cases x) simp_all
      then show ?thesis by simp
    next
      assume "sublist x (re_sub d emoji rest)"
      then have "sublist x rest" using "2.IH"(2) [OF Some] "2.prems"(2) by simp
      moreover from Some have "suffix rest cs" by (rule match_at_suffix)
      ultimately have "sublist x cs"
        by (meson sublist_order.order.trans suffix_imp_sublist)
      then show ?thesis by (simp add: sublist_Cons_right)
    qed
  qed
qed

section \<open>Facts about the loop over the emoji\<close>

lemma strip_emoji_no_emoji: "\<not> sublist emoji s \<Longrightarrow> strip_emoji s emoji = s"
  by (simp add: strip_emoji_def re_sub_no_emoji)

lemma foldl_strip_no_emoji:
  "\<forall>emoji\<in>set es. \<not> sublist emoji s \<Longrightarrow> foldl strip_emoji s es = s"
  by (induction es) (simp_all add: strip_emoji_no_emoji)

lemma strip_emoji_subseq: "subseq (strip_emoji s emoji) s"
proof -
  have "subseq (re_sub squote emoji (re_sub backtick emoji s)) s"
    by (rule subseq_order.trans [OF re_sub_subseq re_sub_subseq])
  then show ?thesis
    unfolding strip_emoji_def by (rule subseq_order.trans [OF re_sub_subseq])
qed

lemma foldl_strip_subseq: "subseq (foldl strip_emoji s es) s"
proof (induction es arbitrary: s)
  case Nil
  show ?case by simp
next
  case (Cons emoji es)
  have "subseq (foldl strip_emoji (strip_emoji s emoji) es) (strip_emoji s emoji)"
    by (rule Cons.IH)
  then show ?case
    using strip_emoji_subseq [of s emoji] by (auto intro: subseq_order.trans)
qed

lemma sublist_strip_emoji:
  assumes "sublist x (strip_emoji s emoji)"
    and "backtick \<notin> set x" and "squote \<notin> set x" and "dquote \<notin> set x"
  shows "sublist x s"
proof -
  from assms(1) have "sublist x (re_sub squote emoji (re_sub backtick emoji s))"
    unfolding strip_emoji_def using assms(4) by (rule sublist_re_sub)
  then have "sublist x (re_sub backtick emoji s)"
    using assms(3) by (rule sublist_re_sub)
  then show ?thesis
    using assms(2) by (rule sublist_re_sub)
qed

lemma sublist_foldl_strip:
  assumes "backtick \<notin> set x" and "squote \<notin> set x" and "dquote \<notin> set x"
  shows "sublist x (foldl strip_emoji s es) \<Longrightarrow> sublist x s"
proof (induction es arbitrary: s)
  case Nil
  then show ?case by simp
next
  case (Cons emoji es)
  from Cons.prems have "sublist x (foldl strip_emoji (strip_emoji s emoji) es)" by simp
  then have "sublist x (strip_emoji s emoji)" by (rule Cons.IH)
  then show ?case using assms by (rule sublist_strip_emoji)
qed

lemma rewrite_warn_error_subseq: "subseq (rewrite_warn_error line) line"
  by (simp add: rewrite_warn_error_def foldl_strip_subseq)

lemma rewrite_warn_error_no_emoji:
  "\<not> has_emoji line \<Longrightarrow> rewrite_warn_error line = line"
  by (simp add: rewrite_warn_error_def has_emoji_iff py_in_sublist foldl_strip_no_emoji)

lemma logger_info_no_delimiter:
  "backtick \<notin> set logger_info" "squote \<notin> set logger_info" "dquote \<notin> set logger_info"
  by (simp_all add: logger_info_def ascii_def backtick_def squote_def dquote_def)

lemma rewrite_warn_error_info:
  "py_in logger_info (rewrite_warn_error line) \<Longrightarrow> py_in logger_info line"
  unfolding py_in_sublist rewrite_warn_error_def
  by (auto dest: sublist_foldl_strip [OF logger_info_no_delimiter] split: if_splits)

section \<open>Facts about the loop over the lines\<close>

lemma clean_loop_acc:
  "clean_loop lines (acc, n) =
     (acc @ map (the \<circ> clean_logger_line) (filter (\<lambda>l. clean_logger_line l \<noteq> None) lines),
      n + length (filter (\<lambda>l. clean_logger_line l = None) lines))"
proof (induction lines arbitrary: acc n)
  case Nil
  show ?case by simp
next
  case (Cons line lines)
  show ?case
    by (cases "clean_logger_line line") (simp_all add: Cons.IH)
qed

lemma length_filter_split:
  "length (filter P xs) + length (filter (\<lambda>x. \<not> P x) xs) = length xs"
  by (induction xs) simp_all

text \<open>
  What the loop hands to \<open>writelines\<close> and what is printed: on \<open>N\<close> lines of which
  the classifier deletes \<open>D\<close>, the sequence written has \<open>N - D\<close> strings and the count
  printed is \<open>D\<close>.
\<close>

lemma clean_file_sequence_counts:
  assumes "files w input_path = Some text" and "writable w output_path"
  shows "let lines = readlines text;
             D = length (filter (\<lambda>line. clean_logger_line line = None) lines);
             (cleaned_lines, removed_count) = clean_loop lines ([], 0)
         in length cleaned_lines = length lines - D \<and> D \<le> length lines
            \<and> removed_count = D
            \<and> clean_file input_path output_path w =
                Inr (w\<lparr>files := (files w)(output_path \<mapsto> concat cleaned_lines),
                       stdout := stdout w @ [removed_message D, written_message output_path]\<rparr>)"
proof -
  let ?lines = "readlines text"
  let ?D = "length (filter (\<lambda>line. clean_logger_line line = None) ?lines)"
  let ?kept = "filter (\<lambda>l. clean_logger_line l \<noteq> None) ?lines"
  have loop: "clean_loop ?lines ([], 0) = (map (the \<circ> clean_logger_line) ?kept, ?D)"
    by (simp add: clean_loop_acc)
  have "?D + length ?kept = length ?lines"
    by (rule length_filter_split)
  then have "length (map (the \<circ> clean_logger_line) ?kept) = length ?lines - ?D"
    and "?D \<le> length ?lines"
    by simp_all
  then show ?thesis
    using assms by (simp add: loop clean_file_def Let_def)
qed

section \<open>Facts about reading the written text again\<close>

lemma readlines_one:
  "l \<noteq> [] \<Longrightarrow> 10 \<notin> set (butlast l) \<Longrightarrow> readlines l = [l]"
proof (induction l)
  case Nil
  then show ?case by simp
next
  case (Cons c l)
  show ?case
  proof (cases l)
    case Nil
    then show ?thesis by simp
  next
    case (Cons c' l')
    with Cons.prems have "c \<noteq> 10" and "10 \<notin> set (butlast l)" by simp_all
    with Cons.IH Cons have "readlines l = [l]" by simp
    with \<open>c \<noteq> 10\<close> show ?thesis by simp
  qed
qed

lemma readlines_terminated:
  "l \<noteq> [] \<Longrightarrow> last l = 10 \<Longrightarrow> 10 \<notin> set (butlast l) \<Longrightarrow> readlines (l @ t) = l # readlines t"
proof (induction l)
  case Nil
  then show ?case by simp
next
  case (Cons c l)
  show ?case
  proof (cases l)
    case Nil
    with Cons.prems show ?thesis by simp
  next
    case (Cons c' l')
    with Cons.prems have "c \<noteq> 10" and "last l = 10" and "10 \<notin> set (butlast l)" by simp_all
    with Cons.IH Cons have "readlines (l @ t) = l # readlines t" by simp
    with \<open>c \<noteq> 10\<close> show ?thesis by simp
  qed
qed

lemma readlines_concat:
  "\<forall>l\<in>set ls. l \<noteq> [] \<and> 10 \<notin> set (butlast l) \<Longrightarrow> \<forall>l\<in>set (butlast ls). last l = 10
   \<Longrightarrow> readlines (concat ls) = ls"
proof (induction ls)
  case Nil
  show ?case by simp
next
  case (Cons l ls)
  show ?case
  proof (cases ls)
    case Nil
    with Cons.prems show ?thesis by (simp add: readlines_one)
  next
    case (Cons l' ls')
    with Cons.prems have "l \<noteq> []" "last l = 10" "10 \<notin> set (butlast l)" by simp_all
    then have "readlines (l @ concat ls) = l # readlines (concat ls)"
      by (rule readlines_terminated)
    moreover from Cons.IH Cons.prems Cons have "readlines (concat ls) = ls" by simp
    ultimately show ?thesis by simp
  qed
qed

lemma readlines_shape:
  "l \<in> set (readlines t) \<Longrightarrow> l \<noteq> [] \<and> 10 \<notin> set (butlast l)"
proof (induction t arbitrary: l)
  case Nil
  then show ?case by simp
next
  case (Cons c t)
  show ?case
  proof (cases "c = 10")
    case True
    with Cons.prems have "l = [10] \<or> l \<in> set (readlines t)" by simp
    with Cons.IH show ?thesis by auto
  next
    case False
    show ?thesis
    proof (cases "readlines t")
      case Nil
      with False Cons.prems show ?thesis by simp
    next
      case (Cons l' ls')
      with Cons.IH [of l'] have l': "l' \<noteq> []" "10 \<notin> set (butlast l')" by simp_all
      from Cons False Cons.prems have "l = c # l' \<or> l \<in> set ls'" by simp
      then show ?thesis
      proof
        assume "l = c # l'"
        with l' False show ?thesis by simp
      next
        assume "l \<in> set ls'"
        with Cons Cons.IH [of l] show ?thesis by simp
      qed
    qed
  qed
qed

lemma subseq_newline_last:
  assumes "subseq r l" and "10 \<notin> set (butlast l)"
  shows "(10::nat) \<notin> set (butlast r)"
proof (cases "l = []")
  case True
  with assms(1) have "r = []" by (auto dest: list_emb_Nil2)
  then show ?thesis by simp
next
  case False
  then have "l = butlast l @ [last l]" by simp
  with assms(1) have "subseq r (butlast l @ [last l])" by simp
  then obtain r1 r2 where r: "r = r1 @ r2" "subseq r1 (butlast l)" "subseq r2 [last l]"
    by (auto simp: subseq_append_iff)
  have n1: "10 \<notin> set r1"
  proof
    assume "10 \<in> set r1"
    with r(2) have "10 \<in> set (butlast l)" by (auto dest: list_emb_set)
    with assms(2) show False by simp
  qed
  from r(3) have "r2 = [] \<or> r2 = [last l]"
    by (cases r2) (auto simp: subseq_Cons2_iff split: if_splits)
  with r(1) n1 show ?thesis
    by (auto simp: butlast_append dest: in_set_butlastD)
qed

lemma re_sub_Nil_iff: "re_sub d emoji s = [] \<longleftrightarrow> s = []"
  by (cases s) (simp_all split: option.splits)

lemma rewrite_warn_error_Nil_iff: "rewrite_warn_error line = [] \<longleftrightarrow> line = []"
proof -
  have "foldl strip_emoji s es = [] \<longleftrightarrow> s = []" for s es
    by (induction es arbitrary: s) (simp_all add: strip_emoji_def re_sub_Nil_iff)
  then show ?thesis by (simp add: rewrite_warn_error_def)
qed

lemma clean_logger_line_shape:
  assumes "clean_logger_line line = Some r" and "line \<noteq> []" and "10 \<notin> set (butlast line)"
  shows "r \<noteq> [] \<and> 10 \<notin> set (butlast r)"
proof -
  from assms(1) have r: "r = rewrite_warn_error line"
    by (auto simp: clean_logger_line_def split: if_splits)
  with assms(2) have "r \<noteq> []" by (simp add: rewrite_warn_error_Nil_iff)
  moreover have "subseq r line" unfolding r by (rule rewrite_warn_error_subseq)
  then have "10 \<notin> set (butlast r)" using assms(3) by (rule subseq_newline_last)
  ultimately show ?thesis by simp
qed

text \<open>
  Reading the written text again gives back the sequence that was written, provided every
  string of it but the last still ends with its newline.
\<close>

lemma written_lines_reread:
  assumes "\<forall>l\<in>set (butlast (fst (clean_loop (readlines contents) ([], 0)))). last l = 10"
  shows "readlines (concat (fst (clean_loop (readlines contents) ([], 0))))
         = fst (clean_loop (readlines contents) ([], 0))"
proof (rule readlines_concat [OF _ assms])
  show "\<forall>l\<in>set (fst (clean_loop (readlines contents) ([], 0))). l \<noteq> [] \<and> 10 \<notin> set (butlast l)"
  proof
    fix r assume "r \<in> set (fst (clean_loop (readlines contents) ([], 0)))"
    then obtain line where "line \<in> set (readlines contents)" "clean_logger_line line = Some r"
      by (auto simp: clean_loop_acc)
    then show "r \<noteq> [] \<and> 10 \<notin> set (butlast r)"
      using readlines_shape [of line contents] by (auto dest: clean_logger_line_shape)
  qed
qed

section \<open>Facts about the patterns\<close>

lemma patterns_mem:
  "(d, emoji) \<in> set patterns \<longleftrightarrow> d \<in> set delimiters \<and> emoji \<in> set emojis"
  by (auto simp: patterns_def)

lemma emoji_no_delimiter:
  "emoji \<in> set emojis \<Longrightarrow> c \<in> set emoji \<Longrightarrow> c \<notin> set delimiters"
  by (auto simp: emojis_def delimiters_def backtick_def squote_def dquote_def)

lemma emoji_prefix_free:
  "emoji \<in> set emojis \<Longrightarrow> emoji' \<in> set emojis \<Longrightarrow> prefix emoji emoji' \<Longrightarrow> emoji = emoji'"
  by (auto simp: emojis_def)

lemma space_no_delimiter: "isspace c \<Longrightarrow> c \<notin> set delimiters"
  by (auto simp: isspace_def delimiters_def backtick_def squote_def dquote_def)

lemma match_at_iff_prefix:
  "match_at d emoji (c # cs) \<noteq> None \<longleftrightarrow> c = d \<and> (\<exists>w. isspace w \<and> prefix (emoji @ [w]) cs)"
proof
  assume "match_at d emoji (c # cs) \<noteq> None"
  then have c: "c = d" and p: "prefix emoji cs"
    and w: "takeWhile isspace (drop (length emoji) cs) \<noteq> []"
    by (auto simp: match_at_def split: if_splits)
  from p obtain zs where zs: "cs = emoji @ zs" by (auto simp: prefix_def)
  with w obtain z zs' where "zs = z # zs'" "isspace z"
    by (cases zs) (auto split: if_splits)
  with zs have "prefix (emoji @ [z]) cs" by simp
  with c \<open>isspace z\<close> show "c = d \<and> (\<exists>w. isspace w \<and> prefix (emoji @ [w]) cs)" by blast
next
  assume "c = d \<and> (\<exists>w. isspace w \<and> prefix (emoji @ [w]) cs)"
  then obtain w zs where "c = d" "isspace w" "cs = (emoji @ [w]) @ zs"
    by (auto simp: prefix_def)
  then show "match_at d emoji (c # cs) \<noteq> None"
    by (simp add: match_at_def)
qed

lemma match_at_unique:
  assumes "match_at d emoji s = Some r" and "match_at d' emoji' s = Some r'"
    and "emoji \<in> set emojis" and "emoji' \<in> set emojis"
  shows "d = d' \<and> emoji = emoji' \<and> r = r'"
proof (cases s)
  case Nil
  with assms(1) show ?thesis by simp
next
  case (Cons c cs)
  from assms(1,2) Cons have p: "prefix emoji cs" "prefix emoji' cs" and d: "c = d" "c = d'"
    by (simp_all add: match_at_Cons)
  from p have "prefix emoji emoji' \<or> prefix emoji' emoji"
    by (rule prefix_same_cases)
  with assms(3,4) have "emoji = emoji'"
    by (auto dest: emoji_prefix_free)
  with assms(1,2) d show ?thesis by simp
qed

section \<open>Facts about the one-pass removal\<close>

lemma any_match_Nil [simp]: "any_match [] s = None"
  by (simp add: any_match_def)

lemma any_match_Cons:
  "any_match ((d, emoji) # ps) s =
     (case match_at d emoji s of Some r \<Rightarrow> Some r | None \<Rightarrow> any_match ps s)"
  by (auto simp: any_match_def split: option.splits)

lemma any_match_None: "any_match ps s = None \<longleftrightarrow> (\<forall>(d, emoji)\<in>set ps. match_at d emoji s = None)"
  by (induction ps) (auto simp: any_match_Cons split: option.splits)

lemma any_match_SomeD:
  "any_match ps s = Some r \<Longrightarrow> \<exists>(d, emoji)\<in>set ps. match_at d emoji s = Some r"
  by (induction ps) (auto simp: any_match_Cons split: option.splits)

lemma any_match_SomeI:
  assumes "set ps \<subseteq> set patterns" and "(d, emoji) \<in> set ps" and "match_at d emoji s = Some r"
  shows "any_match ps s = Some r"
proof (cases "any_match ps s")
  case None
  with assms(2,3) show ?thesis by (auto simp: any_match_None)
next
  case (Some r')
  then obtain d' emoji' where m: "(d', emoji') \<in> set ps" "match_at d' emoji' s = Some r'"
    by (auto dest: any_match_SomeD)
  with assms(1,2) have "emoji \<in> set emojis" "emoji' \<in> set emojis"
    by (auto simp: patterns_mem)
  with assms(3) m(2) have "r = r'" by (auto dest: match_at_unique)
  with Some show ?thesis by simp
qed

lemma any_match_no_delimiter:
  assumes "c \<notin> set delimiters" and "set ps \<subseteq> set patterns"
  shows "any_match ps (c # cs) = None"
proof -
  have "match_at d emoji (c # cs) = None" if "(d, emoji) \<in> set ps" for d emoji
  proof -
    from that assms(2) have "d \<in> set delimiters" by (auto simp: patterns_mem)
    with assms(1) have "c \<noteq> d" by auto
    then show ?thesis by (simp add: match_at_def)
  qed
  then show ?thesis by (auto simp: any_match_None)
qed

lemma remove_prefixes_no_delimiter:
  "c \<notin> set delimiters \<Longrightarrow> set ps \<subseteq> set patterns
   \<Longrightarrow> remove_prefixes ps (c # cs) = c # remove_prefixes ps cs"
  by (simp add: any_match_no_delimiter)

lemma remove_prefixes_hd: "\<exists>zs. remove_prefixes ps (c # cs) = c # zs"
  by (cases "any_match ps (c # cs)") simp_all

lemma prefix_remove_prefixes:
  assumes "set ps \<subseteq> set patterns"
  shows "\<forall>c\<in>set x. c \<notin> set delimiters \<Longrightarrow> prefix x (remove_prefixes ps t) \<longleftrightarrow> prefix x t"
proof (induction x arbitrary: t)
  case Nil
  show ?case by simp
next
  case (Cons a x)
  show ?case
  proof (cases t)
    case Nil
    then show ?thesis by simp
  next
    case (Cons y t')
    show ?thesis
    proof (cases "a = y")
      case True
      with Cons.prems have "y \<notin> set delimiters" by simp
      then have "remove_prefixes ps (y # t') = y # remove_prefixes ps t'"
        using assms by (rule remove_prefixes_no_delimiter)
      with True Cons.IH [of t'] Cons.prems \<open>t = y # t'\<close> show ?thesis by simp
    next
      case False
      with \<open>t = y # t'\<close> remove_prefixes_hd [of ps y t'] show ?thesis by auto
    qed
  qed
qed


lemma remove_prefixes_append_no_delimiter:
  assumes "set ps \<subseteq> set patterns"
  shows "\<forall>c\<in>set x. c \<notin> set delimiters \<Longrightarrow> remove_prefixes ps (x @ t) = x @ remove_prefixes ps t"
  by (induction x) (simp_all add: any_match_no_delimiter [OF _ assms])

lemma dropWhile_remove_prefixes:
  assumes "set ps \<subseteq> set patterns"
  shows "dropWhile isspace (remove_prefixes ps t) = remove_prefixes ps (dropWhile isspace t)"
proof (induction t)
  case Nil
  show ?case by simp
next
  case (Cons y t)
  show ?case
  proof (cases "isspace y")
    case True
    then have "remove_prefixes ps (y # t) = y # remove_prefixes ps t"
      using assms by (intro remove_prefixes_no_delimiter space_no_delimiter)
    with True Cons.IH show ?thesis by simp
  next
    case False
    obtain zs where "remove_prefixes ps (y # t) = y # zs"
      using remove_prefixes_hd by blast
    with False show ?thesis by simp
  qed
qed

lemma match_remove_iff:
  assumes "emoji \<in> set emojis" and "set ps \<subseteq> set patterns"
  shows "match_at d emoji (c # remove_prefixes ps t) \<noteq> None \<longleftrightarrow> match_at d emoji (c # t) \<noteq> None"
proof -
  have "prefix (emoji @ [w]) (remove_prefixes ps t) \<longleftrightarrow> prefix (emoji @ [w]) t"
    if "isspace w" for w
  proof (rule prefix_remove_prefixes [OF assms(2)])
    show "\<forall>c\<in>set (emoji @ [w]). c \<notin> set delimiters"
      using that assms(1) by (auto dest: emoji_no_delimiter space_no_delimiter)
  qed
  then show ?thesis
    unfolding match_at_iff_prefix by blast
qed

lemma match_remove_rest:
  assumes "match_at d emoji (c # cs) = Some r"
    and "emoji \<in> set emojis" and "set ps \<subseteq> set patterns"
  shows "match_at d emoji (c # remove_prefixes ps cs) = Some (remove_prefixes ps r)"
proof -
  from assms(1) have c: "c = d" and p: "prefix emoji cs"
    and w: "takeWhile isspace (drop (length emoji) cs) \<noteq> []"
    and r: "r = dropWhile isspace (drop (length emoji) cs)"
    by (simp_all add: match_at_Cons)
  from p obtain zs where zs: "cs = emoji @ zs" by (auto simp: prefix_def)
  with w obtain z zs' where z: "zs = z # zs'" "isspace z"
    by (cases zs) (auto split: if_splits)
  have nd: "\<forall>c\<in>set emoji. c \<notin> set delimiters"
    using assms(2) by (auto dest: emoji_no_delimiter)
  have rm: "remove_prefixes ps cs = emoji @ remove_prefixes ps zs"
    unfolding zs using nd by (rule remove_prefixes_append_no_delimiter [OF assms(3)])
  have "remove_prefixes ps zs = z # remove_prefixes ps zs'"
    unfolding z(1) using z(2) assms(3)
    by (intro remove_prefixes_no_delimiter space_no_delimiter)
  then have tw: "takeWhile isspace (remove_prefixes ps zs) \<noteq> []"
    using z(2) by simp
  have "dropWhile isspace (remove_prefixes ps zs) = remove_prefixes ps r"
    unfolding r zs by (simp add: dropWhile_remove_prefixes [OF assms(3)])
  with c tw show ?thesis
    by (simp add: match_at_Cons rm)
qed

lemma stacked_suffix: "suffix t s \<Longrightarrow> stacked t \<Longrightarrow> stacked s"
proof (induction s)
  case Nil
  then show ?case by simp
next
  case (Cons c cs)
  from Cons.prems(1) have "t = c # cs \<or> suffix t cs" by (simp add: suffix_Cons)
  then show ?case
  proof
    assume "t = c # cs"
    with Cons.prems(2) show ?thesis by simp
  next
    assume "suffix t cs"
    then have "stacked cs" using Cons.prems(2) by (rule Cons.IH)
    then show ?thesis by simp
  qed
qed

text \<open>
  One substitution after a removal of the patterns \<open>ps\<close> is the removal of \<open>ps\<close> and
  the substituted pattern at once, on a line that is not stacked.
\<close>

lemma re_sub_remove_prefixes:
  assumes ps: "set ps \<subseteq> set patterns" and p: "(d, emoji) \<in> set patterns"
  shows "\<not> stacked s \<Longrightarrow> re_sub d emoji (remove_prefixes ps s) = remove_prefixes ((d, emoji) # ps) s"
proof (induction s rule: length_induct)
  case (1 s)
  from p have e: "emoji \<in> set emojis" by (simp add: patterns_mem)
  from ps p have ps': "set ((d, emoji) # ps) \<subseteq> set patterns" by simp
  show ?case
  proof (cases s)
    case Nil
    then show ?thesis by simp
  next
    case (Cons c cs)
    show ?thesis
    proof (cases "any_match ps (c # cs)")
      case (Some rest)
      then obtain d' emoji' where m: "(d', emoji') \<in> set ps" "match_at d' emoji' (c # cs) = Some rest"
        by (auto dest: any_match_SomeD)
      from ps m have all: "any_match patterns (c # cs) = Some rest"
        by (intro any_match_SomeI [of patterns d' emoji']) auto
      from ps' m have new: "any_match ((d, emoji) # ps) (c # cs) = Some rest"
        by (intro any_match_SomeI [of _ d' emoji']) auto
      from m(2) have suf: "suffix rest cs" by (rule match_at_suffix)
      then have len: "length rest < length s"
        using Cons by (auto dest: suffix_length_le)
      from suf have "suffix rest s" using Cons by (simp add: suffix_Cons)
      with "1.prems" have ns: "\<not> stacked rest" by (auto dest: stacked_suffix)
      have nomatch: "match_at d emoji (c # remove_prefixes ps rest) = None"
      proof (rule ccontr)
        assume "match_at d emoji (c # remove_prefixes ps rest) \<noteq> None"
        then have "match_at d emoji (c # rest) \<noteq> None"
          using match_remove_iff [OF e ps, of d c rest] by blast
        then obtain r2 where "match_at d emoji (c # rest) = Some r2" by auto
        with p have "any_match patterns (c # rest) = Some r2"
          by (intro any_match_SomeI [of patterns d emoji]) auto
        with all have "stacked (c # cs)" by simp
        with "1.prems" Cons show False by simp
      qed
      from "1.IH" len ns
      have "re_sub d emoji (remove_prefixes ps rest) = remove_prefixes ((d, emoji) # ps) rest"
        by blast
      with Cons Some new nomatch show ?thesis by simp
    next
      case None
      from "1.prems" Cons have nscs: "\<not> stacked cs" by simp
      show ?thesis
      proof (cases "match_at d emoji (c # cs)")
        case none: None
        with None have new: "any_match ((d, emoji) # ps) (c # cs) = None"
          by (simp add: any_match_Cons)
        from none have "match_at d emoji (c # remove_prefixes ps cs) = None"
          using match_remove_iff [OF e ps, of d c cs] by blast
        moreover from "1.IH" nscs Cons
        have "re_sub d emoji (remove_prefixes ps cs) = remove_prefixes ((d, emoji) # ps) cs"
          by simp
        ultimately show ?thesis using Cons None new by simp
      next
        case (Some r)
        then have new: "any_match ((d, emoji) # ps) (c # cs) = Some r"
          by (simp add: any_match_Cons)
        from Some have c: "c = d" by (simp add: match_at_Cons)
        from Some have suf: "suffix r cs" by (rule match_at_suffix)
        then have len: "length r < length s"
          using Cons by (auto dest: suffix_length_le)
        from suf nscs have ns: "\<not> stacked r" by (auto dest: stacked_suffix)
        from Some e ps have "match_at d emoji (c # remove_prefixes ps cs) = Some (remove_prefixes ps r)"
          by (rule match_remove_rest)
        moreover from "1.IH" len ns
        have "re_sub d emoji (remove_prefixes ps r) = remove_prefixes ((d, emoji) # ps) r"
          by blast
        ultimately show ?thesis using Cons None new c by simp
      qed
    qed
  qed
qed


lemma remove_prefixes_Nil [simp]: "remove_prefixes [] s = s"
  by (induction s) simp_all

lemma any_match_cong_set:
  assumes "set ps = set qs" and "set ps \<subseteq> set patterns"
  shows "any_match ps t = any_match qs t"
proof (cases "any_match ps t")
  case None
  then have "any_match qs t = None"
    using assms(1) by (simp add: any_match_None)
  with None show ?thesis by simp
next
  case (Some r)
  then obtain d emoji where "(d, emoji) \<in> set ps" "match_at d emoji t = Some r"
    by (auto dest: any_match_SomeD)
  with assms have "any_match qs t = Some r"
    by (intro any_match_SomeI [of qs d emoji]) auto
  with Some show ?thesis by simp
qed

lemma remove_prefixes_cong_set:
  assumes "set ps = set qs" and "set ps \<subseteq> set patterns"
  shows "remove_prefixes ps s = remove_prefixes qs s"
proof (induction s rule: length_induct)
  case (1 s)
  show ?case
  proof (cases s)
    case Nil
    then show ?thesis by simp
  next
    case (Cons c cs)
    have eq: "any_match qs (c # cs) = any_match ps (c # cs)"
      using assms by (rule any_match_cong_set [symmetric])
    show ?thesis
    proof (cases "any_match ps (c # cs)")
      case None
      moreover from "1.IH" Cons have "remove_prefixes ps cs = remove_prefixes qs cs"
        by simp
      ultimately show ?thesis using Cons eq by simp
    next
      case (Some rest)
      then obtain d emoji where "match_at d emoji (c # cs) = Some rest"
        by (auto dest: any_match_SomeD)
      then have "length rest < length cs" by (rule match_at_shorter)
      with "1.IH" Cons have "remove_prefixes ps rest = remove_prefixes qs rest"
        by simp
      with Some show ?thesis using Cons eq by simp
    qed
  qed
qed

lemma foldl_strip_patterns:
  "foldl strip_emoji s es =
     foldl (\<lambda>l (d, emoji). re_sub d emoji l) s
       (concat (map (\<lambda>emoji. map (\<lambda>d. (d, emoji)) delimiters) es))"
  by (induction es arbitrary: s) (simp_all add: strip_emoji_def delimiters_def)

lemma foldl_re_sub_remove:
  assumes "\<not> stacked s"
  shows "set ps \<subseteq> set patterns
         \<Longrightarrow> foldl (\<lambda>l (d, emoji). re_sub d emoji l) s ps = remove_prefixes (rev ps) s"
proof (induction ps rule: rev_induct)
  case Nil
  show ?case by simp
next
  case (snoc p ps)
  obtain d emoji where p: "p = (d, emoji)" by (cases p)
  from snoc.prems p have sub: "set (rev ps) \<subseteq> set patterns" and mem: "(d, emoji) \<in> set patterns"
    by simp_all
  from snoc.IH snoc.prems
  have "foldl (\<lambda>l (d, emoji). re_sub d emoji l) s ps = remove_prefixes (rev ps) s"
    by simp
  then have "foldl (\<lambda>l (d, emoji). re_sub d emoji l) s (ps @ [p])
               = re_sub d emoji (remove_prefixes (rev ps) s)"
    by (simp add: p)
  also have "\<dots> = remove_prefixes ((d, emoji) # rev ps) s"
    using sub mem assms by (rule re_sub_remove_prefixes)
  finally show ?case by (simp add: p)
qed

lemma foldl_strip_one_pass:
  assumes "\<not> stacked s"
  shows "foldl strip_emoji s emojis = strip_prefixes s"
proof -
  have "foldl strip_emoji s emojis = foldl (\<lambda>l (d, emoji). re_sub d emoji l) s patterns"
    by (simp add: foldl_strip_patterns patterns_def)
  also have "\<dots> = remove_prefixes (rev patterns) s"
    using assms by (rule foldl_re_sub_remove) simp
  also have "\<dots> = remove_prefixes patterns s"
    by (rule remove_prefixes_cong_set) simp_all
  finally show ?thesis by (simp add: strip_prefixes_def)
qed

lemma re_sub_strip_prefixes:
  assumes "\<not> stacked s" and "(d, emoji) \<in> set patterns"
  shows "re_sub d emoji (strip_prefixes s) = strip_prefixes s"
proof -
  have "re_sub d emoji (remove_prefixes patterns s) = remove_prefixes ((d, emoji) # patterns) s"
    using _ assms(2) assms(1) by (rule re_sub_remove_prefixes) simp
  also have "\<dots> = remove_prefixes patterns s"
    using assms(2) by (intro remove_prefixes_cong_set) auto
  finally show ?thesis by (simp add: strip_prefixes_def)
qed

lemma strip_emoji_strip_prefixes:
  assumes "\<not> stacked s" and "emoji \<in> set emojis"
  shows "strip_emoji (strip_prefixes s) emoji = strip_prefixes s"
  using assms
  by (simp add: strip_emoji_def re_sub_strip_prefixes patterns_mem delimiters_def)

lemma foldl_strip_strip_prefixes:
  assumes "\<not> stacked s"
  shows "set es \<subseteq> set emojis \<Longrightarrow> foldl strip_emoji (strip_prefixes s) es = strip_prefixes s"
  by (induction es) (simp_all add: strip_emoji_strip_prefixes [OF assms])

section \<open>The loop of substitutions and the one-pass removal\<close>

lemma rewrite_warn_error_one_pass:
  "\<not> stacked line \<Longrightarrow> py_in logger_error line \<or> py_in logger_warn line
   \<Longrightarrow> rewrite_warn_error line = strip_prefixes line"
  by (simp add: rewrite_warn_error_def foldl_strip_one_pass)

lemma rewrite_warn_error_twice:
  assumes "\<not> stacked line"
  shows "rewrite_warn_error (rewrite_warn_error line) = rewrite_warn_error line"
proof (cases "py_in logger_error line \<or> py_in logger_warn line")
  case True
  with assms have "rewrite_warn_error line = strip_prefixes line"
    by (rule rewrite_warn_error_one_pass)
  moreover have "rewrite_warn_error (strip_prefixes line) = strip_prefixes line"
    by (simp add: rewrite_warn_error_def foldl_strip_strip_prefixes [OF assms])
  ultimately show ?thesis by simp
next
  case False
  then show ?thesis by (simp add: rewrite_warn_error_def)
qed

lemma clean_twice_not_deleted:
  assumes "clean_logger_line line = Some out"
  shows "clean_logger_line out \<noteq> None"
proof
  assume del: "clean_logger_line out = None"
  from assms have out: "out = rewrite_warn_error line"
    by (auto simp: clean_logger_line_def split: if_splits)
  from del have "py_in logger_info out"
    by (auto simp: clean_logger_line_def split: if_splits)
  then have info: "py_in logger_info line"
    unfolding out by (rule rewrite_warn_error_info)
  with assms have "\<not> has_emoji line"
    by (auto simp: clean_logger_line_def split: if_splits)
  then have "out = line"
    unfolding out by (rule rewrite_warn_error_no_emoji)
  with assms del show False by simp
qed

section \<open>Evaluation on concrete lines\<close>

text \<open>
  Unfolding rules that look at the head of the line first, so that the simplifier
  evaluates a scan without expanding every pattern at every position.
\<close>

lemma re_sub_step:
  "re_sub d emoji (c # cs) =
     (if c = d
      then (case match_at d emoji (c # cs) of
              Some rest \<Rightarrow> d # re_sub d emoji rest
            | None \<Rightarrow> c # re_sub d emoji cs)
      else c # re_sub d emoji cs)"
  by (simp add: match_at_def)

lemma stacked_step:
  "stacked (c # cs) =
     (if c \<in> set delimiters
      then (case any_match patterns (c # cs) of
              None \<Rightarrow> False
            | Some rest \<Rightarrow> any_match patterns (c # rest) \<noteq> None) \<or> stacked cs
      else stacked cs)"
  by (simp add: any_match_no_delimiter)

lemma remove_prefixes_step:
  "remove_prefixes patterns (c # cs) =
     (if c \<in> set delimiters
      then (case any_match patterns (c # cs) of
              Some rest \<Rightarrow> c # remove_prefixes patterns rest
            | None \<Rightarrow> c # remove_prefixes patterns cs)
      else c # remove_prefixes patterns cs)"
  by (simp add: any_match_no_delimiter)

lemma any_match_patterns:
  "any_match patterns s =
     (case List.find (\<lambda>(d, emoji). match_at d emoji s \<noteq> None)
             (concat (map (\<lambda>emoji. map (\<lambda>d. (d, emoji)) delimiters) emojis)) of
        None \<Rightarrow> None
      | Some (d, emoji) \<Rightarrow> match_at d emoji s)"
  by (simp add: any_match_def patterns_def)

lemmas line_defs =
  ascii_def logger_info_def logger_error_def logger_warn_def marker_def
  info_marker_line_def info_emoji_line_def info_plain_line_def warn_plain_line_def
  mixed_line_def failed_line_def failed_cleaned_def hit_check_line_def
  check_hit_line_def check_line_def hit_line_def bare_line_def
  open_tick_line_def open_tick_cleaned_def rest_line_def
  marked_tick_line_def marked_tick_cleaned_def info_call_line_def

lemmas code_defs =
  clean_logger_line_def rewrite_warn_error_def has_emoji_def strip_emoji_def emojis_def
  match_at_def isspace_def backtick_def squote_def dquote_def re_sub_step

lemmas spec_defs =
  strip_prefixes_def remove_prefixes_step stacked_step any_match_patterns delimiters_def

lemma failed_line_cleaned: "clean_logger_line failed_line = Some failed_cleaned"
  by (simp del: re_sub.simps(2) add: code_defs line_defs)

lemma failed_line_not_stacked: "\<not> stacked failed_line"
  by (simp del: re_sub.simps(2) stacked.simps(2) add: code_defs spec_defs line_defs)

lemma failed_line_error: "py_in logger_error failed_line"
  by (simp add: line_defs)

lemma example_readlines:
  "readlines example_text = [info_marker_line @ [10], warn_plain_line @ [10]]"
  by (simp add: example_text_def line_defs)

lemma example_first_deleted: "clean_logger_line (info_marker_line @ [10]) = None"
  by (simp add: clean_logger_line_def line_defs)

lemma example_second_kept:
  "clean_logger_line (warn_plain_line @ [10]) = Some (warn_plain_line @ [10])"
  by (simp del: re_sub.simps(2) add: code_defs line_defs)

section \<open>The claims\<close>

text \<open>
  Claim C1. Every line that contains \<open>logger.info\<close> and \<open>===\<close> is deleted: the
  classifier returns \<open>None\<close>, whatever else the line holds.
\<close>

theorem info_marker_deleted:
  "py_in logger_info line \<Longrightarrow> py_in marker line \<Longrightarrow> clean_logger_line line = None"
  by (simp add: clean_logger_line_def)

theorem info_marker_deleted_witness:
  "py_in logger_info info_marker_line \<and> py_in marker info_marker_line
   \<and> clean_logger_line info_marker_line = None"
proof -
  have a: "py_in logger_info info_marker_line" by (simp add: line_defs)
  have b: "py_in marker info_marker_line" by (simp add: line_defs)
  from a b info_marker_deleted [OF a b] show ?thesis by simp
qed

text \<open>
  Claim C2. Every line that contains \<open>logger.info\<close>, does not contain \<open>===\<close> and
  contains at least one emoji of the list is deleted.
\<close>

theorem info_emoji_deleted:
  "py_in logger_info line \<Longrightarrow> \<not> py_in marker line \<Longrightarrow> \<exists>emoji\<in>set emojis. py_in emoji line
   \<Longrightarrow> clean_logger_line line = None"
  by (simp add: clean_logger_line_def has_emoji_iff)

theorem info_emoji_deleted_witness:
  "py_in logger_info info_emoji_line \<and> \<not> py_in marker info_emoji_line
   \<and> (\<exists>emoji\<in>set emojis. py_in emoji info_emoji_line)
   \<and> clean_logger_line info_emoji_line = None"
proof -
  have a: "py_in logger_info info_emoji_line" by (simp add: line_defs)
  have b: "\<not> py_in marker info_emoji_line" by (simp add: line_defs)
  have c: "\<exists>emoji\<in>set emojis. py_in emoji info_emoji_line"
    by (simp add: line_defs emojis_def)
  from a b c info_emoji_deleted [OF a b c] show ?thesis by simp
qed

text \<open>
  Claim C3. Every line that contains \<open>logger.info\<close> and neither \<open>===\<close> nor an emoji
  of the list is returned unchanged; the rewriting step for warn and error lines, which
  such a line also reaches, changes nothing in it.
\<close>

theorem info_plain_unchanged:
  "py_in logger_info line \<Longrightarrow> \<not> py_in marker line \<Longrightarrow> \<forall>emoji\<in>set emojis. \<not> py_in emoji line
   \<Longrightarrow> clean_logger_line line = Some line \<and> rewrite_warn_error line = line"
  by (simp add: clean_logger_line_def has_emoji_iff rewrite_warn_error_no_emoji)

theorem info_plain_unchanged_witness:
  "py_in logger_info info_plain_line \<and> \<not> py_in marker info_plain_line
   \<and> \<not> has_emoji info_plain_line
   \<and> clean_logger_line info_plain_line = Some info_plain_line
   \<and> rewrite_warn_error info_plain_line = info_plain_line"
proof -
  have a: "py_in logger_info info_plain_line" by (simp add: line_defs)
  have b: "\<not> py_in marker info_plain_line" by (simp add: line_defs)
  have e: "\<not> has_emoji info_plain_line"
    by (simp add: has_emoji_def line_defs emojis_def)
  then have c: "\<forall>emoji\<in>set emojis. \<not> py_in emoji info_plain_line"
    by (simp add: has_emoji_iff)
  from a b e info_plain_unchanged [OF a b c] show ?thesis by simp
qed

text \<open>
  Claim C4, as amended. On a line that contains \<open>logger.error\<close> or \<open>logger.warn\<close>, is
  not deleted by the info rule and is not stacked (no removable emoji with its whitespace
  is directly followed by a configured emoji and whitespace again), the classifier
  removes each configured emoji followed by whitespace that directly follows a backtick,
  a single quote or a double quote; the delimiter stays and nothing else changes. In
  particular \<open>logger.error('\<dots> Something failed');\<close> with the cross mark becomes
  \<open>logger.error('Something failed');\<close>.
\<close>

theorem rewrite_is_one_pass:
  "((py_in logger_error line \<or> py_in logger_warn line) \<and> clean_logger_line line \<noteq> None
      \<and> \<not> stacked line
    \<longrightarrow> clean_logger_line line = Some (strip_prefixes line))
   \<and> clean_logger_line failed_line = Some failed_cleaned"
proof -
  have "clean_logger_line line = Some (strip_prefixes line)"
    if "py_in logger_error line \<or> py_in logger_warn line" "clean_logger_line line \<noteq> None"
      "\<not> stacked line"
  proof -
    from that(2) have "clean_logger_line line = Some (rewrite_warn_error line)"
      by (auto simp: clean_logger_line_def split: if_splits)
    with that(3,1) show ?thesis by (simp add: rewrite_warn_error_one_pass)
  qed
  with failed_line_cleaned show ?thesis by blast
qed

theorem rewrite_is_one_pass_witness:
  "(py_in logger_error failed_line \<or> py_in logger_warn failed_line)
   \<and> clean_logger_line failed_line \<noteq> None \<and> \<not> stacked failed_line
   \<and> clean_logger_line failed_line = Some (strip_prefixes failed_line)
   \<and> strip_prefixes failed_line = failed_cleaned"
proof -
  have a: "py_in logger_error failed_line \<or> py_in logger_warn failed_line"
    using failed_line_error by simp
  have b: "clean_logger_line failed_line \<noteq> None"
    using failed_line_cleaned by simp
  have c: "\<not> stacked failed_line"
    by (rule failed_line_not_stacked)
  from a b c rewrite_is_one_pass [of failed_line]
  have d: "clean_logger_line failed_line = Some (strip_prefixes failed_line)"
    by blast
  with failed_line_cleaned have "strip_prefixes failed_line = failed_cleaned"
    by simp
  with a b c d show ?thesis by blast
qed

text \<open>
  The claim without the condition fails on \<open>logger.error('\<dots> \<dots> x')\<close> with the direct
  hit and then the check mark: only the direct hit follows the quote, and removing it
  alone leaves the check mark, but the classifier removes both.
\<close>

theorem rewrite_not_one_pass:
  "(py_in logger_error hit_check_line \<or> py_in logger_warn hit_check_line)
   \<and> clean_logger_line hit_check_line \<noteq> None
   \<and> strip_prefixes hit_check_line = check_line
   \<and> clean_logger_line hit_check_line = Some bare_line
   \<and> bare_line \<noteq> check_line"
proof -
  have "py_in logger_error hit_check_line"
    by (simp add: line_defs)
  moreover have "strip_prefixes hit_check_line = check_line"
    by (simp del: re_sub.simps(2) remove_prefixes.simps(2) add: code_defs spec_defs line_defs)
  moreover have "clean_logger_line hit_check_line = Some bare_line"
    by (simp del: re_sub.simps(2) add: code_defs line_defs)
  moreover have "bare_line \<noteq> check_line"
    by (simp add: line_defs)
  ultimately show ?thesis by simp
qed

text \<open>
  Claim C5, as amended. Applied to one of its own results, the classifier never deletes
  it; and it returns it unchanged when the line the result came from is not stacked.
\<close>

theorem clean_twice:
  "clean_logger_line line = Some out
   \<Longrightarrow> clean_logger_line out \<noteq> None \<and> (\<not> stacked line \<longrightarrow> clean_logger_line out = Some out)"
proof -
  assume a: "clean_logger_line line = Some out"
  then have nd: "clean_logger_line out \<noteq> None" by (rule clean_twice_not_deleted)
  from a have out: "out = rewrite_warn_error line"
    by (auto simp: clean_logger_line_def split: if_splits)
  have "clean_logger_line out = Some out" if "\<not> stacked line"
  proof -
    from that have "rewrite_warn_error out = out"
      unfolding out by (rule rewrite_warn_error_twice)
    with nd show ?thesis
      by (auto simp: clean_logger_line_def split: if_splits)
  qed
  with nd show ?thesis by simp
qed

theorem clean_twice_witness:
  "clean_logger_line failed_line = Some failed_cleaned \<and> \<not> stacked failed_line
   \<and> clean_logger_line failed_cleaned \<noteq> None
   \<and> clean_logger_line failed_cleaned = Some failed_cleaned"
proof -
  note a = failed_line_cleaned and b = failed_line_not_stacked
  from clean_twice [OF a] a b show ?thesis by blast
qed

text \<open>
  Idempotence fails on \<open>logger.error('\<dots> \<dots> x')\<close> with the check mark and then the direct
  hit: the first application removes the check mark only, since the direct hit has had
  its turn, and the second application removes the direct hit.
\<close>

theorem clean_twice_changes:
  "clean_logger_line check_hit_line = Some hit_line
   \<and> clean_logger_line hit_line = Some bare_line
   \<and> clean_logger_line hit_line \<noteq> Some hit_line"
proof -
  have "clean_logger_line check_hit_line = Some hit_line"
    by (simp del: re_sub.simps(2) add: code_defs line_defs)
  moreover have "clean_logger_line hit_line = Some bare_line"
    by (simp del: re_sub.simps(2) add: code_defs line_defs)
  moreover have "bare_line \<noteq> hit_line"
    by (simp add: line_defs)
  ultimately show ?thesis by simp
qed

text \<open>
  The theorem is about the classifier applied to its own results. When the written file
  is read again, a result that has lost its newline is joined with the line after it, and
  the joined line can be one that the classifier deletes.
\<close>

lemma reread_line_deleted:
  "clean_logger_line marked_tick_line = Some marked_tick_cleaned
   \<and> clean_logger_line info_call_line = Some info_call_line
   \<and> readlines (concat [marked_tick_cleaned, info_call_line])
       = [marked_tick_cleaned @ info_call_line]
   \<and> clean_logger_line (marked_tick_cleaned @ info_call_line) = None"
proof -
  have "clean_logger_line marked_tick_line = Some marked_tick_cleaned"
    by (simp del: re_sub.simps(2) add: code_defs line_defs)
  moreover have "clean_logger_line info_call_line = Some info_call_line"
    by (simp del: re_sub.simps(2) add: code_defs line_defs)
  moreover have "readlines (concat [marked_tick_cleaned, info_call_line])
      = [marked_tick_cleaned @ info_call_line]"
    by (simp add: line_defs)
  moreover have "clean_logger_line (marked_tick_cleaned @ info_call_line) = None"
    by (simp add: clean_logger_line_def line_defs)
  ultimately show ?thesis by simp
qed

text \<open>
  Claim C6. On an input of \<open>N\<close> lines of which the classifier deletes \<open>D\<close>, the
  output file should hold \<open>N - D\<close> lines, and the count printed should be \<open>D\<close>. The
  sequence handed to \<open>writelines\<close> has \<open>N - D\<close> strings and the count printed is
  \<open>D\<close> (\<open>clean_file_sequence_counts\<close>), and the text written reads back as that
  sequence while every string but the last keeps its newline (\<open>written_lines_reread\<close>).
  The file text below has two lines and none is deleted, yet the text that \<open>clean_file\<close>
  writes is a single line: the whitespace that the substitution removes after the check
  mark is the newline of the first line.
\<close>

theorem clean_file_merges_lines:
  "readlines merge_text = [open_tick_line, rest_line]
   \<and> clean_logger_line open_tick_line = Some open_tick_cleaned
   \<and> clean_logger_line rest_line = Some rest_line
   \<and> clean_file in_path out_path merge_world =
       Inr (merge_world\<lparr>files := (files merge_world)(out_path \<mapsto> open_tick_cleaned @ rest_line),
                        stdout := [removed_message 0, written_message out_path]\<rparr>)
   \<and> readlines (open_tick_cleaned @ rest_line) = [open_tick_cleaned @ rest_line]"
proof -
  have r: "readlines merge_text = [open_tick_line, rest_line]"
    by (simp add: merge_text_def line_defs)
  have a: "clean_logger_line open_tick_line = Some open_tick_cleaned"
    by (simp del: re_sub.simps(2) add: code_defs line_defs)
  have b: "clean_logger_line rest_line = Some rest_line"
    by (simp del: re_sub.simps(2) add: code_defs line_defs)
  have "clean_loop (readlines merge_text) ([], 0) = ([open_tick_cleaned, rest_line], 0)"
    by (simp add: r a b)
  then have c: "clean_file in_path out_path merge_world =
       Inr (merge_world\<lparr>files := (files merge_world)(out_path \<mapsto> open_tick_cleaned @ rest_line),
                        stdout := [removed_message 0, written_message out_path]\<rparr>)"
    by (simp add: clean_file_def merge_world_def)
  have d: "readlines (open_tick_cleaned @ rest_line) = [open_tick_cleaned @ rest_line]"
    by (simp add: line_defs)
  from r a b c d show ?thesis by simp
qed

text \<open>
  Claim C7. The sequence of lines that \<open>clean_file\<close> writes is the classifier's results
  for the lines it does not delete, in the order of the input; the output file holds
  them one after the other.
\<close>

theorem clean_file_order:
  "fst (clean_loop lines ([], 0)) =
     map (the \<circ> clean_logger_line) (filter (\<lambda>line. clean_logger_line line \<noteq> None) lines)
   \<and> (files w input_path = Some text \<longrightarrow> writable w output_path \<longrightarrow>
        (\<exists>w'. clean_file input_path output_path w = Inr w'
           \<and> files w' output_path =
               Some (concat (map (the \<circ> clean_logger_line)
                       (filter (\<lambda>line. clean_logger_line line \<noteq> None) (readlines text))))))"
  by (simp add: clean_loop_acc clean_file_def)

theorem clean_file_order_witness:
  "fst (clean_loop (readlines example_text) ([], 0)) = [warn_plain_line @ [10]]
   \<and> files example_world in_path = Some example_text \<and> writable example_world out_path
   \<and> (\<exists>w'. clean_file in_path out_path example_world = Inr w'
         \<and> files w' out_path = Some (warn_plain_line @ [10]))"
proof -
  have a: "files example_world in_path = Some example_text"
    by (simp add: example_world_def)
  have b: "writable example_world out_path"
    by (simp add: example_world_def)
  from clean_file_order [of "readlines example_text" example_world in_path example_text out_path]
    a b show ?thesis
    by (simp add: example_readlines example_first_deleted example_second_kept)
qed

text \<open>
  Claim C8, as amended. Every line that contains \<open>logger.error\<close> or \<open>logger.warn\<close>,
  contains no emoji of the list, and does not contain both \<open>logger.info\<close> and \<open>===\<close>
  is returned unchanged.
\<close>

theorem warn_error_no_emoji_unchanged:
  "py_in logger_error line \<or> py_in logger_warn line
   \<Longrightarrow> \<forall>emoji\<in>set emojis. \<not> py_in emoji line
   \<Longrightarrow> \<not> (py_in logger_info line \<and> py_in marker line)
   \<Longrightarrow> clean_logger_line line = Some line"
  by (auto simp: clean_logger_line_def has_emoji_iff rewrite_warn_error_no_emoji)

theorem warn_error_no_emoji_unchanged_witness:
  "(py_in logger_error warn_plain_line \<or> py_in logger_warn warn_plain_line)
   \<and> \<not> has_emoji warn_plain_line
   \<and> \<not> (py_in logger_info warn_plain_line \<and> py_in marker warn_plain_line)
   \<and> clean_logger_line warn_plain_line = Some warn_plain_line"
proof -
  have a: "py_in logger_error warn_plain_line \<or> py_in logger_warn warn_plain_line"
    by (simp add: line_defs)
  have e: "\<not> has_emoji warn_plain_line"
    by (simp add: has_emoji_def line_defs emojis_def)
  then have b: "\<forall>emoji\<in>set emojis. \<not> py_in emoji warn_plain_line"
    by (simp add: has_emoji_iff)
  have c: "\<not> (py_in logger_info warn_plain_line \<and> py_in marker warn_plain_line)"
    by (simp add: line_defs)
  from a e c warn_error_no_emoji_unchanged [OF a b c] show ?thesis by blast
qed

text \<open>
  Without the last condition the claim fails: a line with an error call and no emoji
  that also holds an info call with a separator is deleted, since the info rule comes
  first.
\<close>

theorem warn_error_no_emoji_deleted:
  "(py_in logger_error mixed_line \<or> py_in logger_warn mixed_line)
   \<and> \<not> has_emoji mixed_line
   \<and> clean_logger_line mixed_line = None
   \<and> clean_logger_line mixed_line \<noteq> Some mixed_line"
  by (simp add: clean_logger_line_def has_emoji_def emojis_def line_defs)

text \<open>
  Claim C9. The classifier returns \<open>None\<close> exactly for the lines that contain
  \<open>logger.info\<close> together with \<open>===\<close> or an emoji of the list; a line without
  \<open>logger.info\<close> is never deleted.
\<close>

theorem deleted_iff:
  "(clean_logger_line line = None \<longleftrightarrow>
      py_in logger_info line \<and> (py_in marker line \<or> (\<exists>emoji\<in>set emojis. py_in emoji line)))
   \<and> (\<not> py_in logger_info line \<longrightarrow> clean_logger_line line \<noteq> None)"
  by (simp add: clean_logger_line_def has_emoji_iff)

theorem deleted_iff_witness:
  "clean_logger_line info_emoji_line = None
   \<and> py_in logger_info info_emoji_line
   \<and> (\<exists>emoji\<in>set emojis. py_in emoji info_emoji_line)
   \<and> \<not> py_in logger_info warn_plain_line
   \<and> clean_logger_line warn_plain_line \<noteq> None"
proof -
  have a: "py_in logger_info info_emoji_line" by (simp add: line_defs)
  have c: "\<exists>emoji\<in>set emojis. py_in emoji info_emoji_line"
    by (simp add: line_defs emojis_def)
  have d: "\<not> py_in logger_info warn_plain_line" by (simp add: line_defs)
  from a c have "clean_logger_line info_emoji_line = None"
    using deleted_iff [of info_emoji_line] by blast
  moreover from d have "clean_logger_line warn_plain_line \<noteq> None"
    using deleted_iff [of warn_plain_line] by blast
  ultimately show ?thesis using a c d by blast
qed

text \<open>
  Claim C10. Whenever the classifier returns a string, the string is a subsequence of
  the input line: it is the line with pieces deleted, nothing added and nothing
  reordered, and it is at most as long as the line.
\<close>

theorem result_subseq:
  "clean_logger_line line = Some result \<Longrightarrow> subseq result line \<and> length result \<le> length line"
proof -
  assume "clean_logger_line line = Some result"
  then have "result = rewrite_warn_error line"
    by (auto simp: clean_logger_line_def split: if_splits)
  then have "subseq result line"
    by (simp add: rewrite_warn_error_subseq)
  then show ?thesis
    by (simp add: list_emb_length)
qed

theorem result_subseq_witness:
  "clean_logger_line failed_line = Some failed_cleaned
   \<and> subseq failed_cleaned failed_line \<and> length failed_cleaned \<le> length failed_line"
proof -
  note a = failed_line_cleaned
  from a result_subseq [OF a] show ?thesis by simp
qed

end
